theory Spec2Isabelle
  imports Complex_Main
begin

section \<open>Data model of the task list component\<close>

text \<open>
  The component \<^verbatim>\<open>TaskList\<close> of \<^verbatim>\<open>TaskList.jsx\<close> keeps two pieces of React state,
  \<^verbatim>\<open>optimisticTasks\<close> (the displayed collection) and \<^verbatim>\<open>pendingUpdates\<close> (a set of string
  keys), next to the property \<^verbatim>\<open>tasks\<close> delivered by its parent. The JavaScript objects are
  modelled by records that hold the fields the handlers read or write; a spread
  \<^verbatim>\<open>{...task, f: v}\<close> is a record update, which keeps every other field.

  The field \<^verbatim>\<open>_id\<close> is called \<open>task_id\<close> (an Isabelle name cannot start with an
  underscore) and the task's \<^verbatim>\<open>completed\<close> flag is called \<open>task_completed\<close>, since
  \<open>completed\<close> names the flag of a roadmap item; an item's \<^verbatim>\<open>text\<close> is \<open>item_text\<close>.
\<close>

record roadmapItem =
  item_text :: string
  completed :: bool

text \<open>
  \<^verbatim>\<open>task.roadmapItems\<close> is any JavaScript value. The handler distinguishes a falsy value
  (\<open>Absent\<close>), a truthy value that is no array (\<open>NotArray\<close>) and an array.
\<close>

datatype roadmap = Absent | NotArray | Items "roadmapItem list"

record taskHeader =
  header_title :: string
  header_assignedTo :: "string option"

text \<open>
  \<^verbatim>\<open>task.taskHeaders\<close> likewise: falsy, a truthy value without a method \<^verbatim>\<open>some\<close>, or an
  array. An element of the array is a header object or \<open>None\<close>, which stands for
  \<^verbatim>\<open>null\<close> and \<^verbatim>\<open>undefined\<close>: reading a property of such an element throws. An element
  that is a primitive value has no \<^verbatim>\<open>assignedTo\<close> and is a header that is not assigned.
\<close>

datatype headers = NoHeaders | NotArrayHeaders | Headers "taskHeader option list"

record task =
  task_id :: string
  title :: string
  roadmapItems :: roadmap
  overallProgress :: int
  task_completed :: bool
  assignedTo :: "string option"
  isGroupTask :: bool
  taskHeaders :: headers

section \<open>The speculative update of one roadmap item\<close>

subsection \<open>Double-precision arithmetic\<close>

text \<open>
  A JavaScript number is an IEEE 754 double. A finite double is a rational number, and
  the quotient and the product of two doubles are the exact results rounded to the
  nearest double, a tie to the one with an even significand. \<open>fl\<close> is that rounding for
  a value in the normal range, where a double has 53 significant bits: for a value with
  \<open>2 ^ b \<le> \<bar>x\<bar> < 2 ^ (b + 1)\<close> the doubles are the multiples of \<open>2 ^ (b - 52)\<close>. The values
  rounded here are quotients of two array lengths and their products with 100, which lie
  in the normal range; lengths, being below \<open>2 ^ 32\<close>, are doubles themselves.
\<close>

fun bit_length :: "nat \<Rightarrow> nat" where
  "bit_length n = (if n = 0 then 0 else Suc (bit_length (n div 2)))"

declare bit_length.simps [simp del]

definition pow2 :: "int \<Rightarrow> rat" where
  "pow2 e = (if 0 \<le> e then 2 ^ nat e else 1 / 2 ^ nat (- e))"

text \<open>The exponent \<open>b\<close> with \<open>2 ^ b \<le> x < 2 ^ (b + 1)\<close>, for a positive \<open>x\<close>.\<close>

definition binade :: "rat \<Rightarrow> int" where
  "binade x =
     (if 1 \<le> x then int (bit_length (nat \<lfloor>x\<rfloor>)) - 1
      else - int (bit_length (nat (\<lceil>1 / x\<rceil> - 1))))"

definition round_even :: "rat \<Rightarrow> int" where
  "round_even y =
     (let f = \<lfloor>y\<rfloor>; r = y - of_int f
      in if r < 1 / 2 then f
         else if 1 / 2 < r then f + 1
         else if even f then f else f + 1)"

definition fl :: "rat \<Rightarrow> rat" where
  "fl x =
     (if x = 0 then 0
      else (let e = binade \<bar>x\<bar> - 52
            in sgn x * of_int (round_even (\<bar>x\<bar> / pow2 e)) * pow2 e))"

text \<open>
  \<^verbatim>\<open>Math.round\<close> of a double: the nearest integer, a tie towards plus infinity. It is exact
  on the double it is given.
\<close>

definition Math_round :: "rat \<Rightarrow> int" where
  "Math_round x = \<lfloor>x + 1 / 2\<rfloor>"

subsection \<open>The percentage and the updater\<close>

text \<open>
  Lines 110 to 113: \<^verbatim>\<open>Math.round((completedItems / totalItems) * 100)\<close>, the division and
  the multiplication in doubles, or 0 for an empty sequence.
\<close>

definition percentage :: "nat \<Rightarrow> nat \<Rightarrow> int" where
  "percentage completedItems totalItems =
     (if totalItems > 0
      then Math_round (fl (fl (of_nat completedItems / of_nat totalItems) * 100))
      else 0)"

definition newProgress :: "roadmapItem list \<Rightarrow> int" where
  "newProgress updatedRoadmapItems =
     (let completedItems = length (filter completed updatedRoadmapItems);
          totalItems = length updatedRoadmapItems
      in percentage completedItems totalItems)"

text \<open>
  Events that leave the component: console output, requests and calls of the parent's
  callbacks. They are collected in a trace.
\<close>

datatype event =
    ConsoleWarn string
  | ConsoleError string
  | PatchRequest string int bool
  | DeleteRequest string
  | TaskUpdated "task option"
  | TaskDeleted string

text \<open>
  The callback given to \<^verbatim>\<open>prevTasks.map\<close> (lines 83 to 122). The position \<open>itemIndex\<close> is an
  integer, as the presentation layer passes it, and the elements of an item sequence are
  item objects. The result is the task to display and the warnings written to the console.
\<close>

definition toggleTask :: "string \<Rightarrow> int \<Rightarrow> bool \<Rightarrow> task \<Rightarrow> task \<times> event list" where
  "toggleTask taskId itemIndex newStatus tsk =
     (if task_id tsk = taskId then
        (case roadmapItems tsk of
           Items items \<Rightarrow>
             if itemIndex < 0 \<or> itemIndex \<ge> int (length items)
             then (tsk, [ConsoleWarn ''Invalid itemIndex:''])
             else
               (let updatedRoadmapItems =
                      items[nat itemIndex := (items ! nat itemIndex)\<lparr>completed := newStatus\<rparr>];
                    progress = newProgress updatedRoadmapItems
                in (tsk\<lparr>roadmapItems := Items updatedRoadmapItems,
                         overallProgress := progress,
                         task_completed := (progress = 100)\<rparr>, []))
         | _ \<Rightarrow> (tsk, [ConsoleWarn ''Invalid roadmapItems structure for task:'']))
      else (tsk, []))"

text \<open>The updater passed to \<^verbatim>\<open>setOptimisticTasks\<close>: the new overlay, and what it logs.\<close>

definition updateOptimisticTasks :: "string \<Rightarrow> int \<Rightarrow> bool \<Rightarrow> task list \<Rightarrow> task list" where
  "updateOptimisticTasks taskId itemIndex newStatus prevTasks =
     map (\<lambda>tsk. fst (toggleTask taskId itemIndex newStatus tsk)) prevTasks"

definition updateWarnings :: "string \<Rightarrow> int \<Rightarrow> bool \<Rightarrow> task list \<Rightarrow> event list" where
  "updateWarnings taskId itemIndex newStatus prevTasks =
     concat (map (\<lambda>tsk. snd (toggleTask taskId itemIndex newStatus tsk)) prevTasks)"

section \<open>Component state, the pending set and the two halves of the toggle handler\<close>

text \<open>
  The state of the component: the property \<^verbatim>\<open>tasks\<close> (the last collection its parent
  delivered), the two state variables, and the trace of events emitted so far.
\<close>

record state =
  tasks :: "task list"
  optimisticTasks :: "task list"
  pendingUpdates :: "string set"
  trace :: "event list"

text \<open>
  A statement or a callback either completes normally or throws. A thrown error travels
  with the state reached when it was thrown.
\<close>

datatype js_error = TypeError | NetworkError | CallbackError

datatype completion = Normal | Throw js_error

text \<open>
  What the awaited \<^verbatim>\<open>fetch\<close> and \<^verbatim>\<open>response.json()\<close> deliver. \<open>Rejected\<close> stands for a
  rejected \<^verbatim>\<open>fetch\<close>, a body that does not parse, and a body that is \<^verbatim>\<open>null\<close> (reading
  \<^verbatim>\<open>data.success\<close> then throws). Otherwise the body has a \<^verbatim>\<open>success\<close> flag (its truthiness)
  and \<^verbatim>\<open>data.data\<close>, which is missing (\<open>NoData\<close>) or an object whose \<^verbatim>\<open>task\<close> may be
  \<^verbatim>\<open>undefined\<close>.
\<close>

datatype payload = NoData | Data "task option"

datatype response = Rejected | Body bool payload

text \<open>
  The template literal of line 77. A number that is an integer prints in decimal, with a
  minus sign when negative.
\<close>

fun digits :: "nat \<Rightarrow> string" where
  "digits n =
     (if n < 10 then [''0123456789'' ! n]
      else digits (n div 10) @ [''0123456789'' ! (n mod 10)])"

definition number_string :: "int \<Rightarrow> string" where
  "number_string i = (if i < 0 then CHR ''-'' # digits (nat (- i)) else digits (nat i))"

definition updateKey :: "string \<Rightarrow> int \<Rightarrow> string" where
  "updateKey taskId itemIndex = taskId @ ''-'' @ number_string itemIndex"

text \<open>
  A handler is created by a render (lines 74 to 160) and closes over the bindings of that
  render: \<^verbatim>\<open>tasks\<close>, \<^verbatim>\<open>pendingUpdates\<close> and \<^verbatim>\<open>onTaskUpdated\<close>. These stay as they were at
  the render, whatever happens to the state afterwards. Line 78 reads the captured
  \<^verbatim>\<open>pendingUpdates\<close>; lines 146 and 150 write the captured \<^verbatim>\<open>tasks\<close>.
\<close>

record closure =
  closure_tasks :: "task list"
  closure_pendingUpdates :: "string set"
  closure_onTaskUpdated :: "(task option \<Rightarrow> completion) option"

text \<open>
  The handler is an \<^verbatim>\<open>async\<close> function with one \<^verbatim>\<open>await\<close> in its \<^verbatim>\<open>try\<close> block. An
  invocation suspended there is a \<open>call\<close>: its arguments, its key, and the \<^verbatim>\<open>tasks\<close> and
  \<^verbatim>\<open>onTaskUpdated\<close> of its closure.

  The updaters given to \<^verbatim>\<open>setPendingUpdates\<close> and \<^verbatim>\<open>setOptimisticTasks\<close> work on the state
  as it is when they run, not on the captured one. React runs them at the next render, in
  the order of the calls; the model applies them at once, which gives the same state, and
  puts the warnings of the second updater into the trace after the request, which the
  handler sends before that render.
\<close>

record call =
  call_taskId :: string
  call_itemIndex :: int
  call_newStatus :: bool
  call_updateKey :: string
  call_tasks :: "task list"
  call_onTaskUpdated :: "(task option \<Rightarrow> completion) option"

text \<open>Lines 75 to 135: from the invocation to the \<^verbatim>\<open>await\<close>.\<close>

definition handleRoadmapItemToggle_begin ::
  "string \<Rightarrow> int \<Rightarrow> bool \<Rightarrow> closure \<Rightarrow> state \<Rightarrow> state \<times> call option" where
  "handleRoadmapItemToggle_begin taskId itemIndex currentStatus cl st =
     (let newStatus = \<not> currentStatus;
          key = updateKey taskId itemIndex
      in if key \<in> closure_pendingUpdates cl then (st, None)
         else
           (let st1 = st\<lparr>pendingUpdates := insert key (pendingUpdates st)\<rparr>;
                st2 = st1\<lparr>optimisticTasks :=
                            updateOptimisticTasks taskId itemIndex newStatus (optimisticTasks st1)\<rparr>;
                st3 = st2\<lparr>trace := trace st2 @ [PatchRequest taskId itemIndex newStatus] @
                            updateWarnings taskId itemIndex newStatus (optimisticTasks st1)\<rparr>
            in (st3, Some \<lparr>call_taskId = taskId, call_itemIndex = itemIndex,
                           call_newStatus = newStatus, call_updateKey = key,
                           call_tasks = closure_tasks cl,
                           call_onTaskUpdated = closure_onTaskUpdated cl\<rparr>)))"

text \<open>
  Lines 138 to 144, the inner \<^verbatim>\<open>try\<close>: evaluating the argument \<^verbatim>\<open>data.data.task\<close> throws
  when \<^verbatim>\<open>data.data\<close> is missing; otherwise the callback is called and may throw.
\<close>

definition notifyTaskUpdated :: "(task option \<Rightarrow> completion) \<Rightarrow> payload \<Rightarrow> state \<Rightarrow> completion \<times> state" where
  "notifyTaskUpdated onTaskUpdated p st =
     (case p of
        NoData \<Rightarrow> (Throw TypeError, st)
      | Data arg \<Rightarrow> (onTaskUpdated arg, st\<lparr>trace := trace st @ [TaskUpdated arg]\<rparr>))"

text \<open>A \<^verbatim>\<open>catch\<close> block that only writes to the console.\<close>

definition catch_log :: "string \<Rightarrow> completion \<times> state \<Rightarrow> completion \<times> state" where
  "catch_log msg r =
     (case r of
        (Normal, st) \<Rightarrow> (Normal, st)
      | (Throw e, st) \<Rightarrow> (Normal, st\<lparr>trace := trace st @ [ConsoleError msg]\<rparr>))"

text \<open>Lines 136 to 147: the rest of the outer \<^verbatim>\<open>try\<close> block, once the response is there.\<close>

definition reconcile :: "call \<Rightarrow> response \<Rightarrow> state \<Rightarrow> completion \<times> state" where
  "reconcile c resp st =
     (case resp of
        Rejected \<Rightarrow> (Throw NetworkError, st)
      | Body success p \<Rightarrow>
          if success then
            (case call_onTaskUpdated c of
               None \<Rightarrow> (Normal, st)
             | Some onTaskUpdated \<Rightarrow>
                 catch_log ''Error in onTaskUpdated callback:''
                   (notifyTaskUpdated onTaskUpdated p st))
          else (Normal, st\<lparr>optimisticTasks := call_tasks c\<rparr>))"

text \<open>Lines 148 to 150, the outer \<^verbatim>\<open>catch\<close>, and lines 151 to 157, the \<^verbatim>\<open>finally\<close>.\<close>

definition catch_rollback :: "call \<Rightarrow> completion \<times> state \<Rightarrow> completion \<times> state" where
  "catch_rollback c r =
     (case r of
        (Normal, st) \<Rightarrow> (Normal, st)
      | (Throw e, st) \<Rightarrow>
          (Normal, st\<lparr>trace := trace st @ [ConsoleError ''Error updating roadmap item:''],
                       optimisticTasks := call_tasks c\<rparr>))"

definition finally_release :: "call \<Rightarrow> completion \<times> state \<Rightarrow> completion \<times> state" where
  "finally_release c r =
     (case r of (outcome, st) \<Rightarrow>
        (outcome, st\<lparr>pendingUpdates := pendingUpdates st - {call_updateKey c}\<rparr>))"

text \<open>The second half of the handler: what a suspended call does when its request settles.\<close>

definition handleRoadmapItemToggle_resume :: "call \<Rightarrow> response \<Rightarrow> state \<Rightarrow> completion \<times> state" where
  "handleRoadmapItemToggle_resume c resp st =
     finally_release c (catch_rollback c (reconcile c resp st))"

section \<open>Deleting a task\<close>

text \<open>
  Lines 162 to 177. \<^verbatim>\<open>onTaskDeleted\<close> is called without a test for its presence, so a
  missing callback throws inside the \<^verbatim>\<open>try\<close> block. The handler touches no state variable;
  it is modelled in one step, from the request to the settled response.
\<close>

definition handleDelete ::
  "string \<Rightarrow> (string \<Rightarrow> completion) option \<Rightarrow> response \<Rightarrow> state \<Rightarrow> completion \<times> state" where
  "handleDelete taskId onTaskDeleted resp st =
     (let st1 = st\<lparr>trace := trace st @ [DeleteRequest taskId]\<rparr>
      in catch_log ''Error deleting task:''
           (case resp of
              Rejected \<Rightarrow> (Throw NetworkError, st1)
            | Body success p \<Rightarrow>
                if success then
                  (case onTaskDeleted of
                     None \<Rightarrow> (Throw TypeError, st1)
                   | Some cb \<Rightarrow> (cb taskId, st1\<lparr>trace := trace st1 @ [TaskDeleted taskId]\<rparr>))
                else (Normal, st1)))"

section \<open>The component as a transition system\<close>

text \<open>
  What can happen to the mounted component: a click on a roadmap item, the settling of
  the request of the \<open>k\<close>-th suspended call, a new \<^verbatim>\<open>tasks\<close> property (the effect of lines
  29 to 31 then copies it into \<^verbatim>\<open>optimisticTasks\<close>), and a click on delete.

  The only caller of the handler is the \<^verbatim>\<open>onClick\<close> of line 446. A key is added by the
  click itself, and React renders the component again after the state updates of an event
  and before it handles the next event; a new \<^verbatim>\<open>tasks\<close> property is a render. So a click
  runs the handler of a render that has seen every key added before and the current
  \<^verbatim>\<open>tasks\<close>: the step of a click applies the handler to the closure that holds the current
  \<^verbatim>\<open>tasks\<close> and the current \<^verbatim>\<open>pendingUpdates\<close>. Two invocations of the handler of one
  render are no run of this system; they are two applications of
  \<open>handleRoadmapItemToggle_begin\<close> to one closure.
\<close>

datatype action =
    Toggle string int bool "(task option \<Rightarrow> completion) option"
  | Resolve nat response
  | Refresh "task list"
  | Delete string "(string \<Rightarrow> completion) option" response

definition mount :: "task list \<Rightarrow> state \<times> call list" where
  "mount ts = (\<lparr>tasks = ts, optimisticTasks = ts, pendingUpdates = {}, trace = []\<rparr>, [])"

fun step :: "state \<times> call list \<Rightarrow> action \<Rightarrow> state \<times> call list" where
  "step (st, calls) (Toggle taskId itemIndex currentStatus onTaskUpdated) =
     (case handleRoadmapItemToggle_begin taskId itemIndex currentStatus
             \<lparr>closure_tasks = tasks st, closure_pendingUpdates = pendingUpdates st,
              closure_onTaskUpdated = onTaskUpdated\<rparr> st of
        (st', None) \<Rightarrow> (st', calls)
      | (st', Some c) \<Rightarrow> (st', calls @ [c]))"
| "step (st, calls) (Resolve k resp) =
     (if k < length calls
      then (snd (handleRoadmapItemToggle_resume (calls ! k) resp st),
            take k calls @ drop (Suc k) calls)
      else (st, calls))"
| "step (st, calls) (Refresh ts) = (st\<lparr>tasks := ts, optimisticTasks := ts\<rparr>, calls)"
| "step (st, calls) (Delete taskId onTaskDeleted resp) =
     (snd (handleDelete taskId onTaskDeleted resp st), calls)"

definition run :: "state \<times> call list \<Rightarrow> action list \<Rightarrow> state \<times> call list" where
  "run s acts = foldl step s acts"

section \<open>Assignment check\<close>

text \<open>
  Line 68: \<^verbatim>\<open>task.taskHeaders.some(header => header.assignedTo === currentUserId)\<close>. The
  method visits the elements in order and stops at the first one for which the callback
  returns true; the callback throws on an element that is \<^verbatim>\<open>null\<close> or \<^verbatim>\<open>undefined\<close>.
\<close>

fun some_assigned :: "string \<Rightarrow> taskHeader option list \<Rightarrow> js_error + bool" where
  "some_assigned currentUserId [] = Inr False"
| "some_assigned currentUserId (None # hs) = Inl TypeError"
| "some_assigned currentUserId (Some header # hs) =
     (if header_assignedTo header = Some currentUserId then Inr True
      else some_assigned currentUserId hs)"

text \<open>
  Lines 56 to 72. \<^verbatim>\<open>user\<close> comes from the authentication context and may be missing; its
  \<^verbatim>\<open>_id\<close> is falsy when missing or the empty string. The task is \<open>None\<close> when the argument
  is \<^verbatim>\<open>null\<close> or \<^verbatim>\<open>undefined\<close>; line 62 then throws. Calling \<^verbatim>\<open>some\<close> on a truthy
  \<^verbatim>\<open>taskHeaders\<close> that is no array throws.
\<close>

record user =
  user_id :: "string option"

definition isTaskAssignedToMe :: "user option \<Rightarrow> task option \<Rightarrow> js_error + bool" where
  "isTaskAssignedToMe usr tsk =
     (case usr of
        None \<Rightarrow> Inr False
      | Some u \<Rightarrow>
          (case user_id u of
             None \<Rightarrow> Inr False
           | Some currentUserId \<Rightarrow>
               if currentUserId = [] then Inr False
               else
                 (case tsk of
                    None \<Rightarrow> Inl TypeError
                  | Some t \<Rightarrow>
                      if assignedTo t = Some currentUserId then Inr True
                      else if isGroupTask t \<and> taskHeaders t \<noteq> NoHeaders then
                        (case taskHeaders t of
                           Headers hs \<Rightarrow> some_assigned currentUserId hs
                         | _ \<Rightarrow> Inl TypeError)
                      else Inr False)))"

text \<open>
  Lines 305 to 319, the only caller: the check runs inside \<^verbatim>\<open>try\<close>; its \<^verbatim>\<open>catch\<close> writes to
  the console and renders nothing. The result says whether the badge is rendered.
\<close>

definition assignedBadge :: "user option \<Rightarrow> task option \<Rightarrow> bool \<times> event list" where
  "assignedBadge usr tsk =
     (case isTaskAssignedToMe usr tsk of
        Inr assigned \<Rightarrow> (assigned, [])
      | Inl e \<Rightarrow> (False, [ConsoleError ''Error checking task assignment:'']))"

section \<open>Notions used to state the properties\<close>

text \<open>
  The pending set and the suspended calls agree: the keys of the suspended calls are
  pairwise different, they are exactly the members of \<^verbatim>\<open>pendingUpdates\<close>, and each is the
  key of its call's arguments.
\<close>

definition tracked :: "state \<times> call list \<Rightarrow> bool" where
  "tracked s =
     (distinct (map call_updateKey (snd s))
      \<and> pendingUpdates (fst s) = set (map call_updateKey (snd s))
      \<and> list_all (\<lambda>c. call_updateKey c = updateKey (call_taskId c) (call_itemIndex c)) (snd s))"

text \<open>
  The validation of lines 85 to 100 passes on a task: it has the identifier, a proper item
  sequence, and the position lies in it.
\<close>

definition valid_target :: "string \<Rightarrow> int \<Rightarrow> task \<Rightarrow> bool" where
  "valid_target taskId itemIndex tsk =
     (task_id tsk = taskId \<and>
      (case roadmapItems tsk of
         Items items \<Rightarrow> 0 \<le> itemIndex \<and> itemIndex < int (length items)
       | _ \<Rightarrow> False))"

text \<open>
  The actor's identifier as line 57 reads it: none when \<^verbatim>\<open>user\<close> is missing or its
  \<^verbatim>\<open>_id\<close> is falsy.
\<close>

definition actorId :: "user option \<Rightarrow> string option" where
  "actorId usr =
     (case usr of
        None \<Rightarrow> None
      | Some u \<Rightarrow>
          (case user_id u of
             None \<Rightarrow> None
           | Some i \<Rightarrow> if i = [] then None else Some i))"

text \<open>
  The assignment resolver in the words of the specification (section 4.4): false without
  an actor; true if the task is assigned to the actor; else, for a group task that has a
  header sequence, whether some header is assigned to the actor; else false. Shapes that
  are no task or no header count as not assigned.
\<close>

definition header_assigned :: "string \<Rightarrow> taskHeader option \<Rightarrow> bool" where
  "header_assigned a h =
     (case h of None \<Rightarrow> False | Some header \<Rightarrow> header_assignedTo header = Some a)"

definition isAssignedToActor_spec :: "task option \<Rightarrow> string option \<Rightarrow> bool" where
  "isAssignedToActor_spec tsk actor =
     (case actor of
        None \<Rightarrow> False
      | Some a \<Rightarrow>
          (case tsk of
             None \<Rightarrow> False
           | Some t \<Rightarrow>
               if assignedTo t = Some a then True
               else if isGroupTask t then
                 (case taskHeaders t of
                    Headers hs \<Rightarrow> list_ex (header_assigned a) hs
                  | _ \<Rightarrow> False)
               else False))"

text \<open>
  The shapes on which the check throws for the actor \<open>a\<close>: no task at all; or a group
  task that is not assigned to the actor directly and whose \<^verbatim>\<open>taskHeaders\<close> is truthy and
  no array, or is an array with a \<^verbatim>\<open>null\<close> element before the first header assigned to the
  actor.
\<close>

definition throwing_shape :: "string \<Rightarrow> task option \<Rightarrow> bool" where
  "throwing_shape a tsk =
     (case tsk of
        None \<Rightarrow> True
      | Some t \<Rightarrow>
          assignedTo t \<noteq> Some a \<and> isGroupTask t \<and>
          (case taskHeaders t of
             NoHeaders \<Rightarrow> False
           | NotArrayHeaders \<Rightarrow> True
           | Headers hs \<Rightarrow> None \<in> set (takeWhile (\<lambda>h. \<not> header_assigned a h) hs)))"

section \<open>Sample data\<close>

text \<open>
  The task of the specification's scenarios, with two open roadmap items, and a second
  task next to it.
\<close>

definition item_a :: roadmapItem where
  "item_a = \<lparr>item_text = ''a'', completed = False\<rparr>"

definition item_b :: roadmapItem where
  "item_b = \<lparr>item_text = ''b'', completed = False\<rparr>"

definition task_t1 :: task where
  "task_t1 = \<lparr>task_id = ''t1'', title = ''first'', roadmapItems = Items [item_a, item_b],
     overallProgress = 0, task_completed = False, assignedTo = None, isGroupTask = False,
     taskHeaders = NoHeaders\<rparr>"

definition task_t2 :: task where
  "task_t2 = \<lparr>task_id = ''t2'', title = ''second'',
     roadmapItems = Items [\<lparr>item_text = ''c'', completed = True\<rparr>],
     overallProgress = 100, task_completed = True, assignedTo = Some ''u1'', isGroupTask = False,
     taskHeaders = NoHeaders\<rparr>"

text \<open>
  The first task as a server returns it after the first item was completed, with a
  weighted progress that differs from the locally computed 50.
\<close>

definition canonical_t1 :: task where
  "canonical_t1 = task_t1\<lparr>roadmapItems := Items [item_a\<lparr>completed := True\<rparr>, item_b],
     overallProgress := 60\<rparr>"

text \<open>The first task after the speculative update of its first item.\<close>

definition speculative_t1 :: task where
  "speculative_t1 = task_t1\<lparr>roadmapItems := Items [item_a\<lparr>completed := True\<rparr>, item_b],
     overallProgress := 50, task_completed := False\<rparr>"

text \<open>A group task whose \<^verbatim>\<open>taskHeaders\<close> is a truthy value that is no array.\<close>

definition task_bad_headers :: task where
  "task_bad_headers = \<lparr>task_id = ''t3'', title = ''third'', roadmapItems = Items [],
     overallProgress = 0, task_completed = False, assignedTo = None, isGroupTask = True,
     taskHeaders = NotArrayHeaders\<rparr>"

definition task_group :: task where
  "task_group = \<lparr>task_id = ''t4'', title = ''fourth'', roadmapItems = Items [],
     overallProgress = 0, task_completed = False, assignedTo = Some ''u2'', isGroupTask = True,
     taskHeaders = Headers [Some \<lparr>header_title = ''design'', header_assignedTo = None\<rparr>,
                            Some \<lparr>header_title = ''build'', header_assignedTo = Some ''u1''\<rparr>]\<rparr>"

text \<open>
  A group task whose header sequence starts with \<^verbatim>\<open>null\<close>, followed by a header assigned
  to the user.
\<close>

definition task_null_header :: task where
  "task_null_header = \<lparr>task_id = ''t5'', title = ''fifth'', roadmapItems = Items [],
     overallProgress = 0, task_completed = False, assignedTo = None, isGroupTask = True,
     taskHeaders = Headers [None,
                            Some \<lparr>header_title = ''build'', header_assignedTo = Some ''u1''\<rparr>]\<rparr>"

definition user_u1 :: "user option" where
  "user_u1 = Some \<lparr>user_id = Some ''u1''\<rparr>"

text \<open>Callbacks of the parent: one that returns, one that throws.\<close>

definition returning :: "'a \<Rightarrow> completion" where
  "returning x = Normal"

definition throwing :: "'a \<Rightarrow> completion" where
  "throwing x = Throw CallbackError"

text \<open>
  The closure of the render after mounting with the first task, and the call suspended
  after a click on the first item of the first task.
\<close>

definition closure_mount_t1 :: closure where
  "closure_mount_t1 = \<lparr>closure_tasks = [task_t1], closure_pendingUpdates = {},
     closure_onTaskUpdated = None\<rparr>"

definition call_t1_0 :: call where
  "call_t1_0 = \<lparr>call_taskId = ''t1'', call_itemIndex = 0, call_newStatus = True,
     call_updateKey = ''t1-0'', call_tasks = [task_t1], call_onTaskUpdated = Some returning\<rparr>"

text \<open>
  A task with forty roadmap items, the first twenty-two completed, and its item sequence
  after the twenty-third is completed.
\<close>

definition item_done :: roadmapItem where
  "item_done = \<lparr>item_text = ''d'', completed = True\<rparr>"

definition item_open :: roadmapItem where
  "item_open = \<lparr>item_text = ''o'', completed = False\<rparr>"

definition task_t40 :: task where
  "task_t40 = \<lparr>task_id = ''t40'', title = ''long'',
     roadmapItems = Items (replicate 22 item_done @ item_open # replicate 17 item_open),
     overallProgress = 55, task_completed = False, assignedTo = None, isGroupTask = False,
     taskHeaders = NoHeaders\<rparr>"

definition items_23_of_40 :: "roadmapItem list" where
  "items_23_of_40 =
     replicate 22 item_done @ item_open\<lparr>completed := True\<rparr> # replicate 17 item_open"

section \<open>Properties of double-precision rounding\<close>

lemma bit_length_pos: "0 < n \<Longrightarrow> \<exists>k. bit_length n = Suc k"
  by (subst bit_length.simps) simp

lemma bit_length_bounds: "0 < n \<Longrightarrow> 2 ^ (bit_length n - 1) \<le> n \<and> n < 2 ^ bit_length n"
proof (induction n rule: bit_length.induct)
  case (1 n)
  show ?case
  proof (cases "n div 2 = 0")
    case True
    with "1.prems" have "n = 1" by (simp add: div_eq_0_iff)
    then show ?thesis by (simp add: bit_length.simps)
  next
    case False
    then have pos: "0 < n div 2" by simp
    from "1.IH" [OF _ pos] "1.prems"
    have ih: "2 ^ (bit_length (n div 2) - 1) \<le> n div 2 \<and> n div 2 < 2 ^ bit_length (n div 2)"
      by simp
    have bl: "bit_length n = Suc (bit_length (n div 2))"
      using "1.prems" by (subst bit_length.simps) simp
    obtain k where k: "bit_length (n div 2) = Suc k" using bit_length_pos [OF pos] by blast
    from ih k have "2 ^ k \<le> n div 2" "n div 2 < 2 ^ Suc k" by simp_all
    then have "2 * 2 ^ k \<le> n" "n < 2 * 2 ^ Suc k" by linarith+
    then show ?thesis unfolding bl k by simp
  qed
qed

lemma pow2_powi: "pow2 e = 2 powi e"
  by (simp add: pow2_def power_int_def inverse_eq_divide power_one_over)

lemma pow2_pos: "0 < pow2 e"
  by (simp add: pow2_powi)

lemma pow2_add: "pow2 (a + b) = pow2 a * pow2 b"
  by (simp add: pow2_powi power_int_add)

lemma pow2_nat: "pow2 (int k) = 2 ^ k"
  by (simp add: pow2_powi)

lemma pow2_neg_nat: "pow2 (- int k) = 1 / 2 ^ k"
  by (simp add: pow2_powi power_int_minus inverse_eq_divide)

lemma pow2_Suc: "pow2 (e + 1) = 2 * pow2 e"
proof -
  have "pow2 1 = 2" by (simp add: pow2_def)
  then show ?thesis by (simp add: pow2_add)
qed

lemma pow2_shift: "pow2 (e - 53) = pow2 e / 2 ^ 53"
proof -
  have "pow2 (e - 53) = pow2 (e + (- int 53))" by simp
  also have "\<dots> = pow2 e * pow2 (- int 53)" by (rule pow2_add)
  also have "\<dots> = pow2 e / 2 ^ 53" by (simp only: pow2_neg_nat) simp
  finally show ?thesis .
qed

text \<open>The exponent is the right one.\<close>

lemma binade_bounds:
  assumes "0 < x"
  shows "pow2 (binade x) \<le> x \<and> x < pow2 (binade x + 1)"
proof (cases "1 \<le> x")
  case True
  let ?m = "nat \<lfloor>x\<rfloor>"
  have m: "0 < ?m" using True by simp
  obtain k where k: "bit_length ?m = Suc k"
    using bit_length_pos [OF m] by blast
  from bit_length_bounds [OF m] k have b: "2 ^ k \<le> ?m" "?m < 2 ^ Suc k" by simp_all
  have e: "binade x = int k" using True k by (simp add: binade_def)
  have fl_le: "of_int \<lfloor>x\<rfloor> \<le> x" by simp
  have "(2::rat) ^ k = of_nat (2 ^ k)" by simp
  also have "\<dots> \<le> of_nat ?m" using b(1) by (simp only: of_nat_le_iff)
  also have "\<dots> = of_int \<lfloor>x\<rfloor>" using True by simp
  also have "\<dots> \<le> x" by (rule fl_le)
  finally have lo: "pow2 (binade x) \<le> x" by (simp add: e pow2_nat)
  have "Suc ?m \<le> 2 ^ Suc k" using b(2) by simp
  then have "(of_nat (Suc ?m) :: rat) \<le> of_nat (2 ^ Suc k)" by (simp only: of_nat_le_iff)
  moreover have "x < of_nat (Suc ?m)"
  proof -
    have "x < of_int \<lfloor>x\<rfloor> + 1" by linarith
    also have "\<dots> = of_nat (Suc ?m)" using True by simp
    finally show ?thesis .
  qed
  ultimately have "x < 2 ^ Suc k" by simp
  moreover have "pow2 (binade x + 1) = 2 ^ Suc k"
    unfolding e pow2_Suc pow2_nat by simp
  ultimately have hi: "x < pow2 (binade x + 1)" by simp
  from lo hi show ?thesis ..
next
  case False
  with assms have x1: "x < 1" by simp
  let ?M = "\<lceil>1 / x\<rceil>"
  have y: "1 < 1 / x" using assms x1 by (simp add: field_simps)
  have "(1::int) < ?M" unfolding less_ceiling_iff using y by (simp only: of_int_1)
  then have M2: "2 \<le> ?M" by simp
  let ?m = "nat (?M - 1)"
  have m: "0 < ?m" using M2 by simp
  obtain j where j: "bit_length ?m = Suc j"
    using bit_length_pos [OF m] by blast
  from bit_length_bounds [OF m] j have b: "2 ^ j \<le> ?m" "?m < 2 ^ Suc j" by simp_all
  have e: "binade x = - int (Suc j)" using False j by (simp add: binade_def)
  have "0 \<le> ?M - 1" using M2 by linarith
  then have mM: "int ?m = ?M - 1" by (rule nat_0_le)
  have "?M \<le> int (2 ^ Suc j)" using b(2) mM by linarith
  then have "(of_int ?M :: rat) \<le> of_int (int (2 ^ Suc j))" by (simp only: of_int_le_iff)
  then have "(of_int ?M :: rat) \<le> 2 ^ Suc j" by simp
  moreover have "1 / x \<le> of_int ?M" by (rule le_of_int_ceiling)
  ultimately have yle: "1 / x \<le> 2 ^ Suc j" by linarith
  have "int (2 ^ j) \<le> ?M - 1" using b(1) mM by linarith
  then have "(of_int (int (2 ^ j)) :: rat) \<le> of_int (?M - 1)" by (simp only: of_int_le_iff)
  then have "(2 :: rat) ^ j \<le> of_int ?M - 1" by simp
  moreover have "of_int ?M - 1 < 1 / x" by linarith
  ultimately have ygt: "2 ^ j < 1 / x" by linarith
  have lo: "pow2 (binade x) \<le> x"
  proof -
    have "1 / 2 ^ Suc j \<le> x" using yle assms
      by (simp add: field_simps)
    then show ?thesis unfolding e pow2_neg_nat .
  qed
  have hi: "x < pow2 (binade x + 1)"
  proof -
    have "x < 1 / 2 ^ j" using ygt assms by (simp add: field_simps)
    moreover have "binade x + 1 = - int j" using e by simp
    ultimately show ?thesis by (simp only: pow2_neg_nat)
  qed
  from lo hi show ?thesis ..
qed

lemma round_even_err: "\<bar>of_int (round_even y) - y\<bar> \<le> 1 / 2"
proof -
  have "of_int \<lfloor>y\<rfloor> \<le> y" "y < of_int \<lfloor>y\<rfloor> + 1" by linarith+
  then show ?thesis
    by (auto simp: round_even_def Let_def abs_le_iff)
qed

text \<open>Rounding to a double changes a positive value by at most its \<open>2 ^ 53\<close>-th part.\<close>

lemma fl_err:
  assumes "0 < x"
  shows "\<bar>fl x - x\<bar> \<le> x / 2 ^ 53"
proof -
  let ?e = "binade x - 52"
  let ?m = "round_even (x / pow2 ?e)"
  have f: "fl x = of_int ?m * pow2 ?e" using assms by (simp add: fl_def Let_def)
  have p: "0 < pow2 ?e" by (rule pow2_pos)
  have "\<bar>of_int ?m - x / pow2 ?e\<bar> \<le> 1 / 2" by (rule round_even_err)
  then have "\<bar>of_int ?m - x / pow2 ?e\<bar> * pow2 ?e \<le> 1 / 2 * pow2 ?e"
    using p by (simp only: mult_le_cancel_right) simp
  moreover have "\<bar>of_int ?m - x / pow2 ?e\<bar> * pow2 ?e = \<bar>of_int ?m * pow2 ?e - x\<bar>"
  proof -
    have "\<bar>of_int ?m - x / pow2 ?e\<bar> * pow2 ?e = \<bar>(of_int ?m - x / pow2 ?e) * pow2 ?e\<bar>"
      using p by (simp add: abs_mult)
    also have "(of_int ?m - x / pow2 ?e) * pow2 ?e = of_int ?m * pow2 ?e - x"
      using p by (simp add: field_simps)
    finally show ?thesis .
  qed
  ultimately have a: "\<bar>fl x - x\<bar> \<le> 1 / 2 * pow2 ?e" by (simp only: f)
  have "pow2 ?e = pow2 (binade x + 1 - 53)" by simp
  also have "\<dots> = pow2 (binade x + 1) / 2 ^ 53" by (rule pow2_shift)
  also have "\<dots> = 2 * pow2 (binade x) / 2 ^ 53" by (simp only: pow2_Suc)
  finally have "1 / 2 * pow2 ?e = pow2 (binade x) / 2 ^ 53" by simp
  moreover have "pow2 (binade x) / 2 ^ 53 \<le> x / 2 ^ 53"
    using binade_bounds [OF assms] by (simp add: divide_right_mono)
  ultimately show ?thesis using a by linarith
qed

lemma percent_err:
  assumes c: "0 < c" and cn: "c \<le> n"
  shows "\<bar>fl (fl (of_nat c / of_nat n) * 100) - 100 * (of_nat c / of_nat n)\<bar> < 300 / 2 ^ 53"
proof -
  define x :: rat where "x = of_nat c / of_nat n"
  define u :: rat where "u = 1 / 2 ^ 53"
  define a where "a = fl x"
  define y where "y = a * 100"
  have n: "0 < n" using c cn by simp
  have x0: "0 < x" using c n by (simp add: x_def)
  have x1: "x \<le> 1" using cn n by (simp add: x_def)
  have u0: "0 < u" and u1: "u < 1" by (simp_all add: u_def)
  have "\<bar>a - x\<bar> \<le> x / 2 ^ 53" unfolding a_def by (rule fl_err [OF x0])
  then have ax: "\<bar>a - x\<bar> \<le> x * u" by (simp add: u_def)
  have xu: "x * u \<le> u" using x1 u0 by (simp add: mult_left_le_one_le)
  have xu': "x * u < x" using x0 u1 by simp
  from ax xu have au: "\<bar>a - x\<bar> \<le> u" by linarith
  from ax xu' have a0: "0 < a" by linarith
  from au x1 u1 have a2: "a < 2" by linarith
  have y0: "0 < y" using a0 by (simp add: y_def)
  have "\<bar>fl y - y\<bar> \<le> y / 2 ^ 53" by (rule fl_err [OF y0])
  then have "\<bar>fl y - y\<bar> \<le> 100 * (a * u)" by (simp add: u_def y_def)
  moreover have "a * u < 2 * u" using a2 u0 by simp
  ultimately have b: "\<bar>fl y - y\<bar> < 200 * u" by linarith
  have "y - 100 * x = 100 * (a - x)" by (simp add: y_def algebra_simps)
  then have "\<bar>y - 100 * x\<bar> = \<bar>100 * (a - x)\<bar>" by (simp only:)
  also have "\<dots> = \<bar>100\<bar> * \<bar>a - x\<bar>" by (rule abs_mult)
  finally have e: "\<bar>y - 100 * x\<bar> = 100 * \<bar>a - x\<bar>" by simp
  have c': "\<bar>y - 100 * x\<bar> \<le> 100 * u" unfolding e using au by simp
  have "\<bar>fl y - 100 * x\<bar> \<le> \<bar>fl y - y\<bar> + \<bar>y - 100 * x\<bar>" by linarith
  with b c' have "\<bar>fl y - 100 * x\<bar> < 300 * u" by linarith
  then show ?thesis by (simp add: u_def y_def a_def x_def)
qed

lemma floor_near:
  fixes z :: rat and N D :: int
  assumes D: "0 < D"
    and near: "\<bar>z - of_int N / of_int D\<bar> < d"
    and d: "d * of_int D \<le> 1"
  shows "N mod D \<noteq> 0 \<Longrightarrow> \<lfloor>z\<rfloor> = N div D"
    and "\<lfloor>z\<rfloor> = N div D \<or> \<lfloor>z\<rfloor> = N div D - 1"
proof -
  let ?j = "N div D" and ?r = "N mod D"
  have Dr: "(0::rat) < of_int D" using D by simp
  have dD: "d \<le> 1 / of_int D" using d Dr by (simp add: field_simps)
  have "N = D * ?j + ?r" by simp
  then have "(of_int N :: rat) = of_int D * of_int ?j + of_int ?r"
    by (metis of_int_add of_int_mult)
  then have t: "(of_int N :: rat) / of_int D = of_int ?j + of_int ?r / of_int D"
    using Dr by (simp add: field_simps)
  have r0: "0 \<le> ?r" and rD: "?r \<le> D - 1" using D by (simp_all add: pos_mod_bound zle_diff1_eq)
  have hi0: "(of_int ?r :: rat) / of_int D \<le> (of_int D - 1) / of_int D"
  proof -
    have "(of_int ?r :: rat) \<le> of_int (D - 1)" using rD by (simp only: of_int_le_iff)
    then show ?thesis using Dr by (simp add: divide_right_mono)
  qed
  have "(of_int D - 1) / of_int D = 1 - 1 / (of_int D :: rat)" using Dr by (simp add: field_simps)
  with hi0 have hi1: "(of_int ?r :: rat) / of_int D \<le> 1 - 1 / of_int D" by simp
  have lo0: "(0::rat) \<le> of_int ?r / of_int D" using r0 Dr by simp
  from near have zlo: "of_int N / of_int D - d < z" and zhi: "z < of_int N / of_int D + d"
    by (simp_all add: abs_less_iff)
  have up: "z < of_int ?j + 1" using zhi t hi1 dD by linarith
  have lw: "of_int ?j - 1 \<le> z"
  proof -
    have "1 / (of_int D :: rat) \<le> 1" using D by simp
    then show ?thesis using zlo t lo0 dD by linarith
  qed
  show "\<lfloor>z\<rfloor> = ?j \<or> \<lfloor>z\<rfloor> = ?j - 1"
  proof (cases "of_int ?j \<le> z")
    case True
    with up have "\<lfloor>z\<rfloor> = ?j" by (simp add: floor_unique)
    then show ?thesis ..
  next
    case False
    then have "z < of_int (?j - 1) + 1" by simp
    moreover have "of_int (?j - 1) \<le> z" using lw by simp
    ultimately have "\<lfloor>z\<rfloor> = ?j - 1" by (rule floor_unique [rotated])
    then show ?thesis ..
  qed
  assume "?r \<noteq> 0"
  with r0 have "1 \<le> ?r" by linarith
  then have "(of_int 1 :: rat) \<le> of_int ?r" by (simp only: of_int_le_iff)
  then have "1 / (of_int D :: rat) \<le> of_int ?r / of_int D"
    using Dr by (simp add: divide_right_mono)
  then have "of_int ?j \<le> z" using zlo t dD by linarith
  with up show "\<lfloor>z\<rfloor> = ?j" by (simp add: floor_unique)
qed

lemma round_percent:
  assumes "0 < n"
  shows "round (100 * of_nat c / of_nat n :: rat) = (200 * int c + int n) div (2 * int n)"
proof -
  have "100 * of_nat c / of_nat n + 1 / 2 =
      (of_int (200 * int c + int n) :: rat) / of_int (2 * int n)"
    using assms by (simp add: field_simps)
  then show ?thesis
    unfolding round_def by (simp only: floor_divide_of_int_eq)
qed

text \<open>
  The percentage of \<open>c\<close> completed items out of \<open>n\<close>, for array lengths: it is the exactly
  rounded percentage, or one less; and it is the exactly rounded one unless the exact
  percentage lies halfway between two integers.
\<close>

lemma percentage_near:
  assumes n0: "0 < n" and cn: "c \<le> n" and n32: "n < 2 ^ 32"
  shows "percentage c n = round (100 * of_nat c / of_nat n :: rat)
           \<or> percentage c n = round (100 * of_nat c / of_nat n :: rat) - 1"
    and "(200 * int c + int n) mod (2 * int n) \<noteq> 0 \<Longrightarrow>
         percentage c n = round (100 * of_nat c / of_nat n :: rat)"
proof -
  let ?N = "200 * int c + int n" and ?D = "2 * int n"
  let ?z = "fl (fl (of_nat c / of_nat n) * 100) + 1 / 2"
  have p: "percentage c n = \<lfloor>?z\<rfloor>" using n0 by (simp add: percentage_def Math_round_def)
  have r: "round (100 * of_nat c / of_nat n :: rat) = ?N div ?D" by (rule round_percent [OF n0])
  have D: "0 < ?D" using n0 by simp
  have t: "(of_int ?N :: rat) / of_int ?D = 100 * (of_nat c / of_nat n) + 1 / 2"
    using n0 by (simp add: field_simps)
  have d: "(300 / 2 ^ 53 :: rat) * of_int ?D \<le> 1"
  proof -
    have "int n \<le> 2 ^ 32" using n32 by simp
    then have "(of_int (int n) :: rat) \<le> of_int (2 ^ 32)" by (simp only: of_int_le_iff)
    then have "(of_nat n :: rat) \<le> 2 ^ 32" by simp
    then show ?thesis by simp
  qed
  have near: "\<bar>?z - of_int ?N / of_int ?D\<bar> < 300 / 2 ^ 53"
  proof (cases "c = 0")
    case True
    then show ?thesis using n0 by (simp add: fl_def)
  next
    case False
    then have "0 < c" by simp
    from percent_err [OF this cn] show ?thesis unfolding t by simp
  qed
  from floor_near(2) [OF D near d] p r
  show "percentage c n = round (100 * of_nat c / of_nat n :: rat)
           \<or> percentage c n = round (100 * of_nat c / of_nat n :: rat) - 1"
    by simp
  assume "?N mod ?D \<noteq> 0"
  from floor_near(1) [OF D near d this] p r
  show "percentage c n = round (100 * of_nat c / of_nat n :: rat)" by simp
qed


section \<open>Properties of the speculative update\<close>

lemma toggleTask_other: "task_id tsk \<noteq> taskId \<Longrightarrow> fst (toggleTask taskId i b tsk) = tsk"
  by (simp add: toggleTask_def)

lemma toggleTask_valid:
  assumes "task_id tsk = taskId" "roadmapItems tsk = Items items" "0 \<le> i" "i < int (length items)"
  shows "fst (toggleTask taskId i b tsk) =
     tsk\<lparr>roadmapItems := Items (items[nat i := (items ! nat i)\<lparr>completed := b\<rparr>]),
         overallProgress := newProgress (items[nat i := (items ! nat i)\<lparr>completed := b\<rparr>]),
         task_completed := (newProgress (items[nat i := (items ! nat i)\<lparr>completed := b\<rparr>]) = 100)\<rparr>"
  using assms by (simp add: toggleTask_def Let_def)

text \<open>Percentages of the sample data, evaluated.\<close>

lemma percentage_1_of_2: "percentage (Suc 0) (Suc (Suc 0)) = 50"
  by code_simp

lemma percentage_2_of_2: "percentage (Suc (Suc 0)) (Suc (Suc 0)) = 100"
  by code_simp

lemma percentage_23_of_40: "percentage 23 40 = 57"
  by code_simp

lemma items_23_of_40_counts:
  "length items_23_of_40 = 40 \<and> length (filter completed items_23_of_40) = 23"
  by (simp add: items_23_of_40_def item_done_def item_open_def)

lemma toggle_t40:
  "updateOptimisticTasks ''t40'' 22 True [task_t40] =
     [task_t40\<lparr>roadmapItems := Items items_23_of_40,
               overallProgress := newProgress items_23_of_40,
               task_completed := (newProgress items_23_of_40 = 100)\<rparr>]"
proof -
  have "(replicate 22 item_done @ item_open # replicate 17 item_open)
          [length (replicate 22 item_done) := item_open\<lparr>completed := True\<rparr>]
        = items_23_of_40"
    unfolding items_23_of_40_def by (rule list_update_length)
  moreover have "(replicate 22 item_done @ item_open # replicate 17 item_open)
          ! length (replicate 22 item_done) = item_open"
    by (rule nth_append_length)
  ultimately show ?thesis
    by (simp add: updateOptimisticTasks_def toggleTask_def task_t40_def Let_def)
qed

text \<open>
  With forty items of which the toggle completes the twenty-third, the stored progress
  is 57, where the exactly rounded percentage of 23 out of 40 is 58.
\<close>

theorem progress_23_of_40_is_57:
  "roadmapItems (hd (updateOptimisticTasks ''t40'' 22 True [task_t40])) = Items items_23_of_40
   \<and> length (filter completed items_23_of_40) = 23
   \<and> length items_23_of_40 = 40
   \<and> overallProgress (hd (updateOptimisticTasks ''t40'' 22 True [task_t40])) = 57
   \<and> round (100 * of_nat 23 / of_nat 40 :: rat) = 58"
proof -
  have "newProgress items_23_of_40 = 57"
    using items_23_of_40_counts by (simp add: newProgress_def percentage_23_of_40)
  moreover have "round (100 * of_nat 23 / of_nat 40 :: rat) = 58" by code_simp
  ultimately show ?thesis
    using items_23_of_40_counts by (simp add: toggle_t40)
qed

text \<open>
  C1, as the code has it. Let the task at position \<open>k\<close> of the overlay have the
  identifier \<open>taskId\<close> and a proper item sequence, shorter than \<open>2 ^ 32\<close> as every array
  is, and let \<open>itemIndex\<close> be a position of that sequence. Then the updater returns an
  overlay of the same length in which every task with another identifier is the same,
  and the task at \<open>k\<close> is the old one with three fields replaced: the sequence, in which
  only the item at \<open>itemIndex\<close> differs, by its flag, which is the new value; the
  progress; and the task's flag, which says whether the progress is 100. The progress is
  \<^verbatim>\<open>Math.round\<close> of the double-precision product of the double-precision quotient of
  completed and all items with 100. It is the exactly rounded percentage or one less,
  and it is the exactly rounded percentage whenever the exact percentage does not lie
  halfway between two integers.
\<close>

theorem toggle_replaces_one_item:
  assumes k: "k < length overlay"
    and id: "task_id (overlay ! k) = taskId"
    and items: "roadmapItems (overlay ! k) = Items items"
    and lo: "0 \<le> itemIndex" and hi: "itemIndex < int (length items)"
    and array: "length items < 2 ^ 32"
  shows "length (updateOptimisticTasks taskId itemIndex newStatus overlay) = length overlay
    \<and> (\<forall>m < length overlay. task_id (overlay ! m) \<noteq> taskId \<longrightarrow>
          updateOptimisticTasks taskId itemIndex newStatus overlay ! m = overlay ! m)
    \<and> (\<exists>items' p.
          updateOptimisticTasks taskId itemIndex newStatus overlay ! k =
            (overlay ! k)\<lparr>roadmapItems := Items items', overallProgress := p,
               task_completed := (p = 100)\<rparr>
          \<and> length items' = length items
          \<and> (\<forall>j < length items. j \<noteq> nat itemIndex \<longrightarrow> items' ! j = items ! j)
          \<and> items' ! nat itemIndex = (items ! nat itemIndex)\<lparr>completed := newStatus\<rparr>
          \<and> p = Math_round (fl (fl (of_nat (length (filter completed items'))
                                      / of_nat (length items')) * 100))
          \<and> (p = round (100 * of_nat (length (filter completed items'))
                            / of_nat (length items') :: rat)
               \<or> p = round (100 * of_nat (length (filter completed items'))
                            / of_nat (length items') :: rat) - 1)
          \<and> ((200 * int (length (filter completed items')) + int (length items'))
                 mod (2 * int (length items')) \<noteq> 0
               \<longrightarrow> p = round (100 * of_nat (length (filter completed items'))
                               / of_nat (length items') :: rat)))"
proof -
  let ?items' = "items[nat itemIndex := (items ! nat itemIndex)\<lparr>completed := newStatus\<rparr>]"
  let ?c = "length (filter completed ?items')" and ?n = "length ?items'"
  let ?p = "newProgress ?items'"
  have n0: "0 < ?n" using lo hi by auto
  have cn: "?c \<le> ?n" by (rule length_filter_le)
  have n32: "?n < 2 ^ 32" using array by simp
  have pp: "?p = percentage ?c ?n" by (simp add: newProgress_def Let_def)
  have len: "length (updateOptimisticTasks taskId itemIndex newStatus overlay) = length overlay"
    by (simp add: updateOptimisticTasks_def)
  have others: "\<forall>m < length overlay. task_id (overlay ! m) \<noteq> taskId \<longrightarrow>
          updateOptimisticTasks taskId itemIndex newStatus overlay ! m = overlay ! m"
    by (simp add: updateOptimisticTasks_def toggleTask_other)
  have "updateOptimisticTasks taskId itemIndex newStatus overlay ! k =
      fst (toggleTask taskId itemIndex newStatus (overlay ! k))"
    using k by (simp add: updateOptimisticTasks_def)
  then have this_one: "updateOptimisticTasks taskId itemIndex newStatus overlay ! k =
     (overlay ! k)\<lparr>roadmapItems := Items ?items', overallProgress := ?p,
        task_completed := (?p = 100)\<rparr>"
    using toggleTask_valid [OF id items lo hi, of newStatus] by simp
  have nth: "nat itemIndex < length items" using lo hi by simp
  have shape: "length ?items' = length items
          \<and> (\<forall>j < length items. j \<noteq> nat itemIndex \<longrightarrow> ?items' ! j = items ! j)
          \<and> ?items' ! nat itemIndex = (items ! nat itemIndex)\<lparr>completed := newStatus\<rparr>"
    using nth by simp
  have p1: "?p = Math_round (fl (fl (of_nat ?c / of_nat ?n) * 100))"
    unfolding pp using n0 by (simp only: percentage_def if_True)
  have p2: "?p = round (100 * of_nat ?c / of_nat ?n :: rat)
      \<or> ?p = round (100 * of_nat ?c / of_nat ?n :: rat) - 1"
    unfolding pp by (rule percentage_near(1) [OF n0 cn n32])
  have p3: "(200 * int ?c + int ?n) mod (2 * int ?n) \<noteq> 0
      \<longrightarrow> ?p = round (100 * of_nat ?c / of_nat ?n :: rat)"
    unfolding pp using percentage_near(2) [OF n0 cn n32] by blast
  let ?P = "\<lambda>items' p.
          updateOptimisticTasks taskId itemIndex newStatus overlay ! k =
            (overlay ! k)\<lparr>roadmapItems := Items items', overallProgress := p,
               task_completed := (p = 100)\<rparr>
          \<and> length items' = length items
          \<and> (\<forall>j < length items. j \<noteq> nat itemIndex \<longrightarrow> items' ! j = items ! j)
          \<and> items' ! nat itemIndex = (items ! nat itemIndex)\<lparr>completed := newStatus\<rparr>
          \<and> p = Math_round (fl (fl (of_nat (length (filter completed items'))
                                      / of_nat (length items')) * 100))
          \<and> (p = round (100 * of_nat (length (filter completed items'))
                            / of_nat (length items') :: rat)
               \<or> p = round (100 * of_nat (length (filter completed items'))
                            / of_nat (length items') :: rat) - 1)
          \<and> ((200 * int (length (filter completed items')) + int (length items'))
                 mod (2 * int (length items')) \<noteq> 0
               \<longrightarrow> p = round (100 * of_nat (length (filter completed items'))
                               / of_nat (length items') :: rat))"
  have "?P ?items' ?p"
    apply (intro conjI)
          apply (rule this_one)
         apply (simp add: shape)
        apply (simp add: shape)
       apply (simp add: shape)
      apply (rule p1)
     apply (rule p2)
    apply (rule p3)
    done
  then have "\<exists>items' p. ?P items' p"
    by (intro exI)
  with len others show ?thesis by blast
qed


theorem toggle_replaces_one_item_witness:
  "(1::nat) < length [task_t2, task_t1]
   \<and> task_id ([task_t2, task_t1] ! 1) = ''t1''
   \<and> roadmapItems ([task_t2, task_t1] ! 1) = Items [item_a, item_b]
   \<and> (0::int) \<le> 0 \<and> (0::int) < int (length [item_a, item_b])
   \<and> length [item_a, item_b] < 2 ^ 32
   \<and> length (updateOptimisticTasks ''t1'' 0 True [task_t2, task_t1]) = 2
   \<and> updateOptimisticTasks ''t1'' 0 True [task_t2, task_t1] ! 0 = task_t2
   \<and> updateOptimisticTasks ''t1'' 0 True [task_t2, task_t1] ! 1 =
        task_t1\<lparr>roadmapItems := Items [item_a\<lparr>completed := True\<rparr>, item_b],
                overallProgress := 50, task_completed := False\<rparr>"
proof -
  have h1: "(1::nat) < length [task_t2, task_t1]" by simp
  have h2: "task_id ([task_t2, task_t1] ! 1) = ''t1''" by (simp add: task_t1_def)
  have h3: "roadmapItems ([task_t2, task_t1] ! 1) = Items [item_a, item_b]" by (simp add: task_t1_def)
  have h4: "(0::int) \<le> 0" by simp
  have h5: "(0::int) < int (length [item_a, item_b])" by simp
  have h6: "length [item_a, item_b] < 2 ^ 32" by simp
  note inst = toggle_replaces_one_item [OF h1 h2 h3 h4 h5 h6, of True]
  note len = inst [THEN conjunct1]
  note oth = inst [THEN conjunct2, THEN conjunct1]
  from inst [THEN conjunct2, THEN conjunct2]
  obtain items' p where big:
    "updateOptimisticTasks ''t1'' 0 True [task_t2, task_t1] ! 1 =
            ([task_t2, task_t1] ! 1)\<lparr>roadmapItems := Items items', overallProgress := p,
               task_completed := (p = 100)\<rparr>
          \<and> length items' = length [item_a, item_b]
          \<and> (\<forall>j < length [item_a, item_b]. j \<noteq> nat 0 \<longrightarrow> items' ! j = [item_a, item_b] ! j)
          \<and> items' ! nat 0 = ([item_a, item_b] ! nat 0)\<lparr>completed := True\<rparr>
          \<and> p = Math_round (fl (fl (of_nat (length (filter completed items'))
                                      / of_nat (length items')) * 100))
          \<and> (p = round (100 * of_nat (length (filter completed items'))
                            / of_nat (length items') :: rat)
               \<or> p = round (100 * of_nat (length (filter completed items'))
                            / of_nat (length items') :: rat) - 1)
          \<and> ((200 * int (length (filter completed items')) + int (length items'))
                 mod (2 * int (length items')) \<noteq> 0
               \<longrightarrow> p = round (100 * of_nat (length (filter completed items'))
                               / of_nat (length items') :: rat))"
    by (elim exE) (rule that)
  note new = big [THEN conjunct1]
  note l = big [THEN conjunct2, THEN conjunct1]
  note same = big [THEN conjunct2, THEN conjunct2, THEN conjunct1]
  note chg = big [THEN conjunct2, THEN conjunct2, THEN conjunct2, THEN conjunct1]
  note exact = big [THEN conjunct2, THEN conjunct2, THEN conjunct2, THEN conjunct2,
    THEN conjunct2, THEN conjunct2]
  have i0: "items' ! 0 = item_a\<lparr>completed := True\<rparr>" using chg by simp
  have i1: "items' ! 1 = item_b" using same by simp
  have "items' = [item_a\<lparr>completed := True\<rparr>, item_b]"
  proof (rule nth_equalityI)
    show "length items' = length [item_a\<lparr>completed := True\<rparr>, item_b]" using l by simp
    fix i assume "i < length items'"
    then have "i = 0 \<or> i = 1" using l by auto
    then show "items' ! i = [item_a\<lparr>completed := True\<rparr>, item_b] ! i"
      using i0 i1 by auto
  qed
  then have items': "items' = [item_a\<lparr>completed := True\<rparr>, item_b]" .
  have cnt: "length (filter completed items') = 1" "length items' = 2"
    by (simp_all add: items' item_a_def item_b_def)
  have "round (100 * of_nat 1 / of_nat 2 :: rat) = 50" by code_simp
  with exact have p: "p = 50" by (simp add: cnt)
  have c1: "length (updateOptimisticTasks ''t1'' 0 True [task_t2, task_t1]) = 2"
    using len by simp
  have c2: "updateOptimisticTasks ''t1'' 0 True [task_t2, task_t1] ! 0 = task_t2"
    using oth by (simp add: task_t2_def)
  have c3: "updateOptimisticTasks ''t1'' 0 True [task_t2, task_t1] ! 1 =
        task_t1\<lparr>roadmapItems := Items [item_a\<lparr>completed := True\<rparr>, item_b],
                overallProgress := 50, task_completed := False\<rparr>"
    using new by (simp add: p items')
  from h1 h2 h3 h4 h5 h6 c1 c2 c3 show ?thesis by blast
qed

section \<open>Evaluating the handlers on concrete inputs\<close>

lemmas handler_defs =
  handleRoadmapItemToggle_begin_def handleRoadmapItemToggle_resume_def finally_release_def
  catch_rollback_def reconcile_def catch_log_def notifyTaskUpdated_def handleDelete_def
  updateOptimisticTasks_def updateWarnings_def toggleTask_def updateKey_def number_string_def
  newProgress_def percentage_1_of_2 percentage_2_of_2 run_def mount_def Let_def

section \<open>What settling a call and deleting do to the state\<close>

lemma resume_pending:
  "pendingUpdates (snd (handleRoadmapItemToggle_resume c resp st)) = pendingUpdates st - {call_updateKey c}"
  by (auto simp: handleRoadmapItemToggle_resume_def finally_release_def catch_rollback_def reconcile_def
      catch_log_def notifyTaskUpdated_def split: response.splits option.splits payload.splits completion.splits prod.splits if_splits)

lemma resume_normal:
  "fst (handleRoadmapItemToggle_resume c resp st) = Normal"
  by (auto simp: handleRoadmapItemToggle_resume_def finally_release_def catch_rollback_def reconcile_def
      catch_log_def notifyTaskUpdated_def split: response.splits option.splits payload.splits completion.splits prod.splits if_splits)

lemma delete_state:
  "pendingUpdates (snd (handleDelete taskId cb resp st)) = pendingUpdates st
   \<and> optimisticTasks (snd (handleDelete taskId cb resp st)) = optimisticTasks st
   \<and> tasks (snd (handleDelete taskId cb resp st)) = tasks st"
  by (auto simp: handleDelete_def catch_log_def Let_def split: response.splits option.splits completion.splits prod.splits if_splits)


lemma toggleTask_warns_only:
  "e \<in> set (snd (toggleTask taskId itemIndex b tsk)) \<Longrightarrow> \<exists>msg. e = ConsoleWarn msg"
  by (cases "roadmapItems tsk") (auto simp: toggleTask_def Let_def split: if_splits)

lemma warnings_are_warnings:
  "e \<in> set (updateWarnings taskId itemIndex b overlay) \<Longrightarrow> \<exists>msg. e = ConsoleWarn msg"
  by (auto simp: updateWarnings_def dest: toggleTask_warns_only)


lemma toggleTask_invalid:
  "\<not> valid_target taskId itemIndex tsk \<Longrightarrow> fst (toggleTask taskId itemIndex b tsk) = tsk"
  by (auto simp: toggleTask_def valid_target_def split: roadmap.splits)

lemma toggleTask_invalid_warns:
  "\<not> valid_target taskId itemIndex tsk \<Longrightarrow>
   length (snd (toggleTask taskId itemIndex b tsk)) = (if task_id tsk = taskId then 1 else 0)"
  by (auto simp: toggleTask_def valid_target_def split: roadmap.splits)

lemma update_invalid:
  "\<not> list_ex (valid_target taskId itemIndex) overlay \<Longrightarrow>
   updateOptimisticTasks taskId itemIndex b overlay = overlay"
  by (induction overlay) (simp_all add: updateOptimisticTasks_def toggleTask_invalid)

lemma warnings_invalid:
  "\<not> list_ex (valid_target taskId itemIndex) overlay \<Longrightarrow>
   length (updateWarnings taskId itemIndex b overlay) = length (filter (\<lambda>t. task_id t = taskId) overlay)"
  by (induction overlay) (simp_all add: updateWarnings_def toggleTask_invalid_warns)

section \<open>The pending set tracks the suspended calls\<close>

lemma remove_nth_keys:
  assumes "distinct (map f xs)" "k < length xs"
  shows "set (map f (take k xs @ drop (Suc k) xs)) = set (map f xs) - {f (xs ! k)}"
    and "distinct (map f (take k xs @ drop (Suc k) xs))"
proof -
  have xs: "xs = take k xs @ xs ! k # drop (Suc k) xs"
    using assms(2) by (rule id_take_nth_drop)
  have d: "distinct (map f (take k xs) @ f (xs ! k) # map f (drop (Suc k) xs))"
    using assms(1) by (subst (asm) xs) simp
  then show "distinct (map f (take k xs @ drop (Suc k) xs))" by auto
  have "set (map f xs) = set (map f (take k xs) @ f (xs ! k) # map f (drop (Suc k) xs))"
    by (subst xs) simp
  with d show "set (map f (take k xs @ drop (Suc k) xs)) = set (map f xs) - {f (xs ! k)}"
    by auto
qed

lemma tracked_mount: "tracked (mount ts)"
  by (simp add: tracked_def mount_def)

lemma tracked_step: "tracked s \<Longrightarrow> tracked (step s a)"
proof (cases s)
  case (Pair st calls)
  assume t: "tracked s"
  show ?thesis
  proof (cases a)
    case (Toggle taskId itemIndex cur cb)
    with t Pair show ?thesis
      by (auto simp: tracked_def handleRoadmapItemToggle_begin_def Let_def)
  next
    case (Resolve k resp)
    show ?thesis
    proof (cases "k < length calls")
      case True
      from t Pair have d: "distinct (map call_updateKey calls)" by (simp add: tracked_def)
      from remove_nth_keys [OF d True] t Pair Resolve True show ?thesis
        by (auto simp: tracked_def resume_pending list_all_iff dest: in_set_takeD in_set_dropD)
    next
      case False
      with t Pair Resolve show ?thesis by simp
    qed
  next
    case (Refresh ts)
    with t Pair show ?thesis by (simp add: tracked_def)
  next
    case (Delete taskId cb resp)
    with t Pair show ?thesis by (simp add: tracked_def delete_state)
  qed
qed

lemma tracked_run: "tracked s \<Longrightarrow> tracked (run s acts)"
  unfolding run_def by (induction acts arbitrary: s) (simp_all add: tracked_step)

lemma tracked_reachable: "tracked (run (mount ts) acts)"
  by (rule tracked_run [OF tracked_mount])



section \<open>Rollback after a failed request\<close>

text \<open>
  C2. The rollback of lines 146 and 150 writes the \<^verbatim>\<open>tasks\<close> that the suspended call
  captured when it was invoked, not the collection the parent delivered last. Two items of
  the first task are toggled; the first request succeeds and the parent delivers the
  canonical task; the second request then fails. The component ends with the canonical
  task as its \<^verbatim>\<open>tasks\<close> property and the task as it was before both toggles on display.
\<close>

theorem rollback_restores_stale_tasks:
  "tasks (fst (run (mount [task_t1])
       [Toggle ''t1'' 0 False (Some returning), Toggle ''t1'' 1 False (Some returning),
        Resolve 0 (Body True (Data (Some canonical_t1))), Refresh [canonical_t1],
        Resolve 0 (Body False NoData)])) = [canonical_t1]
   \<and> optimisticTasks (fst (run (mount [task_t1])
       [Toggle ''t1'' 0 False (Some returning), Toggle ''t1'' 1 False (Some returning),
        Resolve 0 (Body True (Data (Some canonical_t1))), Refresh [canonical_t1],
        Resolve 0 (Body False NoData)])) = [task_t1]
   \<and> [task_t1] \<noteq> [canonical_t1]"
  by (simp add: handler_defs task_t1_def item_a_def item_b_def canonical_t1_def returning_def)

section \<open>Confirmation of a toggle\<close>

text \<open>
  The overlay after a confirmed toggle is the speculative one, also where the canonical
  task of the response differs from it.
\<close>

theorem confirmation_keeps_speculative_overlay:
  "optimisticTasks (fst (run (mount [task_t1])
       [Toggle ''t1'' 0 False (Some returning),
        Resolve 0 (Body True (Data (Some canonical_t1)))])) = [speculative_t1]
   \<and> [speculative_t1] \<noteq> [canonical_t1]"
  by (simp add: handler_defs task_t1_def item_a_def item_b_def canonical_t1_def speculative_t1_def returning_def)

text \<open>
  C3, as the code has it. When the response reports success and carries a canonical
  task, and the call has an \<^verbatim>\<open>onTaskUpdated\<close> callback, the handler completes normally,
  leaves \<^verbatim>\<open>optimisticTasks\<close> and \<^verbatim>\<open>tasks\<close> as they are, and calls the callback exactly
  once, with the canonical task.
\<close>

theorem confirmation_notifies_only:
  assumes "call_onTaskUpdated c = Some onTaskUpdated"
  shows "fst (handleRoadmapItemToggle_resume c (Body True (Data (Some canonical))) st) = Normal
    \<and> optimisticTasks (snd (handleRoadmapItemToggle_resume c (Body True (Data (Some canonical))) st))
        = optimisticTasks st
    \<and> tasks (snd (handleRoadmapItemToggle_resume c (Body True (Data (Some canonical))) st)) = tasks st
    \<and> (\<exists>logged. trace (snd (handleRoadmapItemToggle_resume c (Body True (Data (Some canonical))) st))
          = trace st @ TaskUpdated (Some canonical) # logged
        \<and> (\<forall>x. TaskUpdated x \<notin> set logged))"
  using assms
  by (cases "onTaskUpdated (Some canonical)")
     (simp_all add: handleRoadmapItemToggle_resume_def finally_release_def
      catch_rollback_def reconcile_def catch_log_def notifyTaskUpdated_def)

theorem confirmation_notifies_only_witness:
  "call_onTaskUpdated call_t1_0 = Some returning
   \<and> optimisticTasks (snd (handleRoadmapItemToggle_resume call_t1_0 (Body True (Data (Some canonical_t1)))
        \<lparr>tasks = [task_t1], optimisticTasks = [speculative_t1], pendingUpdates = {''t1-0''},
         trace = [PatchRequest ''t1'' 0 True]\<rparr>)) = [speculative_t1]
   \<and> (\<exists>logged. trace (snd (handleRoadmapItemToggle_resume call_t1_0 (Body True (Data (Some canonical_t1)))
        \<lparr>tasks = [task_t1], optimisticTasks = [speculative_t1], pendingUpdates = {''t1-0''},
         trace = [PatchRequest ''t1'' 0 True]\<rparr>))
          = [PatchRequest ''t1'' 0 True, TaskUpdated (Some canonical_t1)] @ logged)"
proof -
  have h: "call_onTaskUpdated call_t1_0 = Some returning" by (simp add: call_t1_0_def)
  from confirmation_notifies_only [OF h, of canonical_t1
    "\<lparr>tasks = [task_t1], optimisticTasks = [speculative_t1], pendingUpdates = {''t1-0''},
         trace = [PatchRequest ''t1'' 0 True]\<rparr>"]
  show ?thesis using h by auto
qed

text \<open>
  C10. When the callback throws on the success path, the handler completes normally:
  the error is written to the console, \<^verbatim>\<open>optimisticTasks\<close> and \<^verbatim>\<open>tasks\<close> stay as they are
  (no rollback), and the key of the call leaves the pending set.
\<close>

theorem callback_exception_contained:
  assumes "call_onTaskUpdated c = Some onTaskUpdated"
    and "onTaskUpdated arg = Throw e"
  shows "handleRoadmapItemToggle_resume c (Body True (Data arg)) st =
     (Normal, st\<lparr>trace := trace st @ [TaskUpdated arg, ConsoleError ''Error in onTaskUpdated callback:''],
                 pendingUpdates := pendingUpdates st - {call_updateKey c}\<rparr>)"
  using assms
  by (simp add: handleRoadmapItemToggle_resume_def finally_release_def
      catch_rollback_def reconcile_def catch_log_def notifyTaskUpdated_def)

theorem callback_exception_contained_witness:
  "call_onTaskUpdated (call_t1_0\<lparr>call_onTaskUpdated := Some throwing\<rparr>) = Some throwing
   \<and> throwing (Some canonical_t1) = Throw CallbackError
   \<and> handleRoadmapItemToggle_resume (call_t1_0\<lparr>call_onTaskUpdated := Some throwing\<rparr>)
        (Body True (Data (Some canonical_t1)))
        \<lparr>tasks = [task_t1], optimisticTasks = [speculative_t1], pendingUpdates = {''t1-0''},
         trace = [PatchRequest ''t1'' 0 True]\<rparr>
      = (Normal, \<lparr>tasks = [task_t1], optimisticTasks = [speculative_t1], pendingUpdates = {},
         trace = [PatchRequest ''t1'' 0 True, TaskUpdated (Some canonical_t1),
                  ConsoleError ''Error in onTaskUpdated callback:'']\<rparr>)"
proof -
  have h1: "call_onTaskUpdated (call_t1_0\<lparr>call_onTaskUpdated := Some throwing\<rparr>) = Some throwing"
    by simp
  have h2: "throwing (Some canonical_t1) = Throw CallbackError" by (simp add: throwing_def)
  from callback_exception_contained [OF h1 h2, of
    "\<lparr>tasks = [task_t1], optimisticTasks = [speculative_t1], pendingUpdates = {''t1-0''},
         trace = [PatchRequest ''t1'' 0 True]\<rparr>"]
  show ?thesis using h1 h2 by (simp add: call_t1_0_def)
qed

section \<open>De-duplication and release of the key\<close>




text \<open>
  C7. In every state the mounted component can reach, the key of a suspended call is
  pending. Whatever response settles the call, its continuation completes normally and
  removes exactly that key from the pending set; afterwards the key belongs to no
  suspended call, and the pending set is again the set of keys of the suspended calls.
\<close>

theorem key_released_when_call_settles:
  assumes "k < length (snd (run (mount ts) acts))"
  shows "call_updateKey (snd (run (mount ts) acts) ! k) \<in> pendingUpdates (fst (run (mount ts) acts))
    \<and> fst (handleRoadmapItemToggle_resume (snd (run (mount ts) acts) ! k) resp
              (fst (run (mount ts) acts))) = Normal
    \<and> pendingUpdates (fst (step (run (mount ts) acts) (Resolve k resp)))
        = pendingUpdates (fst (run (mount ts) acts)) - {call_updateKey (snd (run (mount ts) acts) ! k)}
    \<and> call_updateKey (snd (run (mount ts) acts) ! k)
        \<notin> call_updateKey ` set (snd (step (run (mount ts) acts) (Resolve k resp)))
    \<and> pendingUpdates (fst (step (run (mount ts) acts) (Resolve k resp)))
        = call_updateKey ` set (snd (step (run (mount ts) acts) (Resolve k resp)))"
proof -
  obtain st calls where s: "run (mount ts) acts = (st, calls)" by (cases "run (mount ts) acts")
  have t: "tracked (st, calls)" using tracked_reachable [of ts acts] s by simp
  from assms s have k: "k < length calls" by simp
  have t': "tracked (step (st, calls) (Resolve k resp))" by (rule tracked_step [OF t])
  from t k have a: "call_updateKey (calls ! k) \<in> pendingUpdates st"
    by (simp add: tracked_def)
  have b: "pendingUpdates (fst (step (st, calls) (Resolve k resp)))
      = pendingUpdates st - {call_updateKey (calls ! k)}"
    using k by (simp add: resume_pending)
  from t' have c: "pendingUpdates (fst (step (st, calls) (Resolve k resp)))
      = call_updateKey ` set (snd (step (st, calls) (Resolve k resp)))"
    by (simp add: tracked_def)
  from b c have d: "call_updateKey (calls ! k)
      \<notin> call_updateKey ` set (snd (step (st, calls) (Resolve k resp)))"
    by blast
  from a b c d s resume_normal [of "calls ! k" resp st] show ?thesis by simp
qed

theorem key_released_when_call_settles_witness:
  "(0::nat) < length (snd (run (mount [task_t1]) [Toggle ''t1'' 0 False (Some throwing)]))
   \<and> pendingUpdates (fst (run (mount [task_t1]) [Toggle ''t1'' 0 False (Some throwing)])) = {''t1-0''}
   \<and> pendingUpdates (fst (step (run (mount [task_t1]) [Toggle ''t1'' 0 False (Some throwing)])
        (Resolve 0 (Body True (Data None))))) = {}"
proof -
  have h: "(0::nat) < length (snd (run (mount [task_t1]) [Toggle ''t1'' 0 False (Some throwing)]))"
    by (simp add: handler_defs task_t1_def item_a_def item_b_def throwing_def)
  have p: "pendingUpdates (fst (run (mount [task_t1]) [Toggle ''t1'' 0 False (Some throwing)])) = {''t1-0''}"
    by (simp add: handler_defs task_t1_def item_a_def item_b_def throwing_def)
  have q: "call_updateKey (snd (run (mount [task_t1]) [Toggle ''t1'' 0 False (Some throwing)]) ! 0) = ''t1-0''"
    by (simp add: handler_defs task_t1_def item_a_def item_b_def throwing_def)
  from key_released_when_call_settles [OF h, of "Body True (Data None)"] p q
  have "pendingUpdates (fst (step (run (mount [task_t1]) [Toggle ''t1'' 0 False (Some throwing)])
        (Resolve 0 (Body True (Data None))))) = {}"
    by simp
  with h p show ?thesis by simp
qed

section \<open>A toggle that fails validation\<close>

text \<open>
  A toggle at a position outside the item sequence leaves the overlay as it is and still
  sends its request.
\<close>

theorem invalid_toggle_still_requests:
  "PatchRequest ''t1'' 5 True \<in> set (trace (fst (run (mount [task_t1]) [Toggle ''t1'' 5 False None])))
   \<and> \<not> list_ex (valid_target ''t1'' 5) [task_t1]
   \<and> optimisticTasks (fst (run (mount [task_t1]) [Toggle ''t1'' 5 False None])) = [task_t1]"
  by (simp add: handler_defs task_t1_def item_a_def item_b_def valid_target_def)

text \<open>
  C5, as the code has it. When the key is not in the pending set of the handler's closure
  and the validation passes on no task of the overlay, the first half of the handler
  leaves \<^verbatim>\<open>optimisticTasks\<close> and \<^verbatim>\<open>tasks\<close> as they are, adds the key to the pending set,
  emits the request all the same, writes one warning for each task that has the
  identifier (none when no task has it), and suspends a call; whatever response settles
  that call, its key is not pending afterwards.
\<close>

theorem invalid_toggle_keeps_overlay:
  assumes gate: "updateKey taskId itemIndex \<notin> closure_pendingUpdates cl"
    and invalid: "\<not> list_ex (valid_target taskId itemIndex) (optimisticTasks st)"
  shows "\<exists>c warnings.
      handleRoadmapItemToggle_begin taskId itemIndex currentStatus cl st =
        (st\<lparr>pendingUpdates := insert (updateKey taskId itemIndex) (pendingUpdates st),
             trace := trace st @ PatchRequest taskId itemIndex (\<not> currentStatus) # warnings\<rparr>,
         Some c)
      \<and> length warnings = length (filter (\<lambda>t. task_id t = taskId) (optimisticTasks st))
      \<and> (\<forall>x y z. PatchRequest x y z \<notin> set warnings)
      \<and> call_updateKey c = updateKey taskId itemIndex
      \<and> (\<forall>resp st'. updateKey taskId itemIndex
             \<notin> pendingUpdates (snd (handleRoadmapItemToggle_resume c resp st')))"
proof -
  let ?w = "updateWarnings taskId itemIndex (\<not> currentStatus) (optimisticTasks st)"
  let ?c = "\<lparr>call_taskId = taskId, call_itemIndex = itemIndex,
             call_newStatus = \<not> currentStatus, call_updateKey = updateKey taskId itemIndex,
             call_tasks = closure_tasks cl, call_onTaskUpdated = closure_onTaskUpdated cl\<rparr>"
  have b: "handleRoadmapItemToggle_begin taskId itemIndex currentStatus cl st =
        (st\<lparr>pendingUpdates := insert (updateKey taskId itemIndex) (pendingUpdates st),
             trace := trace st @ PatchRequest taskId itemIndex (\<not> currentStatus) # ?w\<rparr>,
         Some ?c)"
    using gate update_invalid [OF invalid, of "\<not> currentStatus"]
    by (simp add: handleRoadmapItemToggle_begin_def Let_def)
  have l: "length ?w = length (filter (\<lambda>t. task_id t = taskId) (optimisticTasks st))"
    by (rule warnings_invalid [OF invalid])
  have n: "\<forall>x y z. PatchRequest x y z \<notin> set ?w"
    using warnings_are_warnings by fastforce
  have r: "\<forall>resp st'. updateKey taskId itemIndex
             \<notin> pendingUpdates (snd (handleRoadmapItemToggle_resume ?c resp st'))"
    by (simp add: resume_pending)
  have k: "call_updateKey ?c = updateKey taskId itemIndex" by simp
  from b l n k r show ?thesis by blast
qed

theorem invalid_toggle_keeps_overlay_witness:
  "updateKey ''t1'' 5 \<notin> closure_pendingUpdates closure_mount_t1
   \<and> \<not> list_ex (valid_target ''t1'' 5) (optimisticTasks (fst (mount [task_t1])))
   \<and> (\<exists>c warnings.
        handleRoadmapItemToggle_begin ''t1'' 5 False closure_mount_t1 (fst (mount [task_t1])) =
          ((fst (mount [task_t1]))\<lparr>pendingUpdates := {''t1-5''},
             trace := PatchRequest ''t1'' 5 True # warnings\<rparr>, Some c)
        \<and> length warnings = 1)"
proof -
  have h1: "updateKey ''t1'' 5 \<notin> closure_pendingUpdates closure_mount_t1"
    by (simp add: closure_mount_t1_def)
  have h2: "\<not> list_ex (valid_target ''t1'' 5) (optimisticTasks (fst (mount [task_t1])))"
    by (simp add: mount_def valid_target_def task_t1_def item_a_def item_b_def)
  have k: "updateKey ''t1'' 5 = ''t1-5''" by (simp add: updateKey_def number_string_def)
  from invalid_toggle_keeps_overlay [OF h1 h2, of False]
  obtain c warnings where
    "handleRoadmapItemToggle_begin ''t1'' 5 False closure_mount_t1 (fst (mount [task_t1])) =
        ((fst (mount [task_t1]))\<lparr>pendingUpdates :=
             insert (updateKey ''t1'' 5) (pendingUpdates (fst (mount [task_t1]))),
           trace := trace (fst (mount [task_t1])) @ PatchRequest ''t1'' 5 (\<not> False) # warnings\<rparr>,
         Some c)"
    and "length warnings = length (filter (\<lambda>t. task_id t = ''t1'') (optimisticTasks (fst (mount [task_t1]))))"
    by (elim exE conjE) (rule that)
  then have "handleRoadmapItemToggle_begin ''t1'' 5 False closure_mount_t1 (fst (mount [task_t1])) =
          ((fst (mount [task_t1]))\<lparr>pendingUpdates := {''t1-5''},
             trace := PatchRequest ''t1'' 5 True # warnings\<rparr>, Some c)
        \<and> length warnings = 1"
    by (simp add: k mount_def task_t1_def item_a_def item_b_def)
  with h1 h2 show ?thesis by blast
qed

section \<open>A success flag without a canonical task\<close>

text \<open>
  A response with a success flag and no task is taken as a confirmation: the callback is
  called with the missing task and the overlay keeps the speculative value, where a
  response without the flag restores the captured \<^verbatim>\<open>tasks\<close>.
\<close>

theorem missing_task_is_confirmation:
  "optimisticTasks (fst (run (mount [task_t1])
       [Toggle ''t1'' 0 False (Some returning), Resolve 0 (Body True (Data None))])) = [speculative_t1]
   \<and> optimisticTasks (fst (run (mount [task_t1])
       [Toggle ''t1'' 0 False (Some returning), Resolve 0 (Body False (Data None))])) = [task_t1]
   \<and> [speculative_t1] \<noteq> [task_t1]
   \<and> TaskUpdated None \<in> set (trace (fst (run (mount [task_t1])
       [Toggle ''t1'' 0 False (Some returning), Resolve 0 (Body True (Data None))])))"
  by (simp add: handler_defs task_t1_def item_a_def item_b_def speculative_t1_def returning_def)

text \<open>
  C6, as the code has it. Only the success flag and a failed transport decide: with the
  flag, whatever the payload, the handler completes normally and leaves the overlay as it
  is; without the flag, or when the request is rejected, the overlay becomes the captured
  \<^verbatim>\<open>tasks\<close>. With the flag and no task the callback is called with the missing task; with
  the flag and no \<^verbatim>\<open>data\<close> object the error of reading the task is written to the console.
\<close>

theorem only_flag_and_transport_roll_back:
  "optimisticTasks (snd (handleRoadmapItemToggle_resume c (Body True p) st)) = optimisticTasks st
   \<and> fst (handleRoadmapItemToggle_resume c (Body True p) st) = Normal
   \<and> optimisticTasks (snd (handleRoadmapItemToggle_resume c (Body False p) st)) = call_tasks c
   \<and> optimisticTasks (snd (handleRoadmapItemToggle_resume c Rejected st)) = call_tasks c
   \<and> trace (snd (handleRoadmapItemToggle_resume (c\<lparr>call_onTaskUpdated := Some cb\<rparr>)
         (Body True (Data None)) st))
       = trace st @ TaskUpdated None #
           (case cb None of Normal \<Rightarrow> [] | Throw e \<Rightarrow> [ConsoleError ''Error in onTaskUpdated callback:''])
   \<and> trace (snd (handleRoadmapItemToggle_resume (c\<lparr>call_onTaskUpdated := Some cb\<rparr>)
         (Body True NoData) st))
       = trace st @ [ConsoleError ''Error in onTaskUpdated callback:'']"
  by (auto simp: handleRoadmapItemToggle_resume_def finally_release_def
      catch_rollback_def reconcile_def catch_log_def notifyTaskUpdated_def
      split: option.splits payload.splits completion.splits prod.splits)

theorem only_flag_and_transport_roll_back_witness:
  "optimisticTasks (snd (handleRoadmapItemToggle_resume call_t1_0 (Body True NoData)
        \<lparr>tasks = [task_t1], optimisticTasks = [speculative_t1], pendingUpdates = {''t1-0''},
         trace = []\<rparr>)) = [speculative_t1]
   \<and> optimisticTasks (snd (handleRoadmapItemToggle_resume call_t1_0 Rejected
        \<lparr>tasks = [task_t1], optimisticTasks = [speculative_t1], pendingUpdates = {''t1-0''},
         trace = []\<rparr>)) = [task_t1]"
  using only_flag_and_transport_roll_back [of call_t1_0 NoData
        "\<lparr>tasks = [task_t1], optimisticTasks = [speculative_t1], pendingUpdates = {''t1-0''},
         trace = []\<rparr>" returning]
  by (simp add: call_t1_0_def)

section \<open>The assignment check\<close>

lemma header_assigned_simps:
  "header_assigned a None = False"
  "header_assigned a (Some header) = (header_assignedTo header = Some a)"
  by (simp_all add: header_assigned_def)

lemma some_assigned_eq:
  "some_assigned a hs =
     (if None \<in> set (takeWhile (\<lambda>h. \<not> header_assigned a h) hs) then Inl TypeError
      else Inr (list_ex (header_assigned a) hs))"
proof (induction hs)
  case Nil
  show ?case by simp
next
  case (Cons h hs)
  show ?case
  proof (cases h)
    case None
    then show ?thesis by (simp add: header_assigned_simps)
  next
    case (Some header)
    with Cons show ?thesis by (simp add: header_assigned_simps)
  qed
qed

text \<open>
  For a group task whose \<^verbatim>\<open>taskHeaders\<close> is no array the check throws, and so it does
  for a header sequence that starts with \<^verbatim>\<open>null\<close>, also when a later header is assigned
  to the user.
\<close>

theorem assignment_check_raises:
  "isTaskAssignedToMe user_u1 (Some task_bad_headers) = Inl TypeError
   \<and> isTaskAssignedToMe user_u1 (Some task_bad_headers) \<noteq> Inr False
   \<and> isTaskAssignedToMe user_u1 (Some task_null_header) = Inl TypeError
   \<and> isAssignedToActor_spec (Some task_null_header) (Some ''u1'')"
  by (simp add: isTaskAssignedToMe_def isAssignedToActor_spec_def header_assigned_def
      user_u1_def task_bad_headers_def task_null_header_def)

text \<open>
  C8, as the code has it. The check is a function of the user and the task. Without an
  actor it returns false, whatever the task is. With an actor it throws exactly on the
  shapes of \<open>throwing_shape\<close>: no task; or no direct assignment and a group task whose
  \<^verbatim>\<open>taskHeaders\<close> is truthy and no array, or has a \<^verbatim>\<open>null\<close> element before the first header
  assigned to the actor. In every other case it returns what the specification's
  resolver returns: true for a direct assignment, otherwise whether the task is a group
  task with a header assigned to the actor. Its caller catches what it throws: the badge
  is rendered exactly when the check returns true, and the error is written to the
  console exactly when the check throws.
\<close>

theorem assignment_check_refines_spec:
  "isTaskAssignedToMe usr tsk =
     (case actorId usr of
        None \<Rightarrow> Inr False
      | Some a \<Rightarrow>
          if throwing_shape a tsk then Inl TypeError
          else Inr (isAssignedToActor_spec tsk (Some a)))
   \<and> fst (assignedBadge usr tsk) = (isTaskAssignedToMe usr tsk = Inr True)
   \<and> snd (assignedBadge usr tsk) =
        (if isTaskAssignedToMe usr tsk = Inl TypeError
         then [ConsoleError ''Error checking task assignment:''] else [])"
proof -
  have a: "isTaskAssignedToMe usr tsk =
     (case actorId usr of
        None \<Rightarrow> Inr False
      | Some a \<Rightarrow>
          if throwing_shape a tsk then Inl TypeError
          else Inr (isAssignedToActor_spec tsk (Some a)))"
    by (auto simp: isTaskAssignedToMe_def isAssignedToActor_spec_def actorId_def
        throwing_shape_def some_assigned_eq split: option.splits headers.splits)
  have b: "fst (assignedBadge usr tsk) = (isTaskAssignedToMe usr tsk = Inr True)"
    by (cases "isTaskAssignedToMe usr tsk") (simp_all add: assignedBadge_def)
  have c: "snd (assignedBadge usr tsk) =
        (if isTaskAssignedToMe usr tsk = Inl TypeError
         then [ConsoleError ''Error checking task assignment:''] else [])"
  proof (cases "isTaskAssignedToMe usr tsk")
    case (Inl e)
    moreover have "e = TypeError"
      using Inl a by (auto split: option.splits if_splits)
    ultimately show ?thesis by (simp add: assignedBadge_def)
  next
    case (Inr b)
    then show ?thesis by (simp add: assignedBadge_def)
  qed
  from a b c show ?thesis by (intro conjI)
qed

theorem assignment_check_refines_spec_witness:
  "isTaskAssignedToMe user_u1 (Some task_group) = Inr True
   \<and> isTaskAssignedToMe None (Some task_bad_headers) = Inr False
   \<and> isTaskAssignedToMe None None = Inr False
   \<and> isTaskAssignedToMe user_u1 None = Inl TypeError
   \<and> isTaskAssignedToMe user_u1 (Some task_t2) = Inr True
   \<and> isTaskAssignedToMe user_u1 (Some task_t1) = Inr False
   \<and> assignedBadge user_u1 (Some task_null_header)
        = (False, [ConsoleError ''Error checking task assignment:''])"
proof -
  have 1: "isTaskAssignedToMe user_u1 (Some task_group) = Inr True"
    using assignment_check_refines_spec [of user_u1 "Some task_group", THEN conjunct1]
    by (simp add: isAssignedToActor_spec_def actorId_def throwing_shape_def header_assigned_def
        user_u1_def task_group_def)
  have 2: "isTaskAssignedToMe None (Some task_bad_headers) = Inr False"
    using assignment_check_refines_spec [of None "Some task_bad_headers", THEN conjunct1]
    by (simp add: actorId_def)
  have 3: "isTaskAssignedToMe None None = Inr False"
    using assignment_check_refines_spec [of None None, THEN conjunct1]
    by (simp add: actorId_def)
  have 4: "isTaskAssignedToMe user_u1 None = Inl TypeError"
    using assignment_check_refines_spec [of user_u1 None, THEN conjunct1]
    by (simp add: actorId_def throwing_shape_def user_u1_def)
  have 5: "isTaskAssignedToMe user_u1 (Some task_t2) = Inr True"
    using assignment_check_refines_spec [of user_u1 "Some task_t2", THEN conjunct1]
    by (simp add: isAssignedToActor_spec_def actorId_def throwing_shape_def
        user_u1_def task_t2_def)
  have 6: "isTaskAssignedToMe user_u1 (Some task_t1) = Inr False"
    using assignment_check_refines_spec [of user_u1 "Some task_t1", THEN conjunct1]
    by (simp add: isAssignedToActor_spec_def actorId_def throwing_shape_def
        user_u1_def task_t1_def)
  have e: "isTaskAssignedToMe user_u1 (Some task_null_header) = Inl TypeError"
    using assignment_check_refines_spec [of user_u1 "Some task_null_header", THEN conjunct1]
    by (simp add: actorId_def throwing_shape_def header_assigned_def
        user_u1_def task_null_header_def)
  have 7: "assignedBadge user_u1 (Some task_null_header)
        = (False, [ConsoleError ''Error checking task assignment:''])"
    using assignment_check_refines_spec [of user_u1 "Some task_null_header"] e
    by (simp add: prod_eq_iff)
  from 1 2 3 4 5 6 7 show ?thesis by (intro conjI)
qed

section \<open>Deleting a task\<close>

text \<open>
  C9. \<^verbatim>\<open>handleDelete\<close> completes normally and leaves \<^verbatim>\<open>tasks\<close>, \<^verbatim>\<open>optimisticTasks\<close> and
  \<^verbatim>\<open>pendingUpdates\<close> as they are, whatever the response. It emits exactly one delete
  request and no other request. When the response reports success and the callback is
  there, the callback is called once, with the task identifier; when the request is
  rejected or the response reports no success, the callback is not called.
\<close>

theorem delete_is_fail_closed:
  "fst (handleDelete taskId onTaskDeleted resp st) = Normal
   \<and> tasks (snd (handleDelete taskId onTaskDeleted resp st)) = tasks st
   \<and> optimisticTasks (snd (handleDelete taskId onTaskDeleted resp st)) = optimisticTasks st
   \<and> pendingUpdates (snd (handleDelete taskId onTaskDeleted resp st)) = pendingUpdates st
   \<and> (\<exists>later. trace (snd (handleDelete taskId onTaskDeleted resp st))
          = trace st @ DeleteRequest taskId # later
        \<and> (\<forall>x. DeleteRequest x \<notin> set later)
        \<and> (\<forall>x y z. PatchRequest x y z \<notin> set later)
        \<and> ((\<exists>p cb. resp = Body True p \<and> onTaskDeleted = Some cb)
              \<longrightarrow> (\<exists>logged. later = TaskDeleted taskId # logged \<and> (\<forall>x. TaskDeleted x \<notin> set logged)))
        \<and> ((resp = Rejected \<or> (\<exists>p. resp = Body False p))
              \<longrightarrow> (\<forall>x. TaskDeleted x \<notin> set later)))"
  by (cases resp; cases onTaskDeleted)
     (auto simp: handleDelete_def catch_log_def Let_def split: completion.splits)

theorem delete_is_fail_closed_witness:
  "(\<exists>p cb. Body True NoData = Body True p \<and> Some (returning :: string \<Rightarrow> completion) = Some cb)
   \<and> (\<exists>logged. trace (snd (handleDelete ''t1'' (Some returning) (Body True NoData) (fst (mount [task_t1]))))
          = DeleteRequest ''t1'' # TaskDeleted ''t1'' # logged)
   \<and> ((Rejected :: response) = Rejected \<or> (\<exists>p. (Rejected :: response) = Body False p))
   \<and> (\<forall>x. TaskDeleted x \<notin> set (trace (snd (handleDelete ''t1'' (Some returning) Rejected (fst (mount [task_t1]))))))
   \<and> optimisticTasks (snd (handleDelete ''t1'' (Some returning) Rejected (fst (mount [task_t1])))) = [task_t1]"
proof -
  have h1: "\<exists>p cb. Body True NoData = Body True p \<and> Some (returning :: string \<Rightarrow> completion) = Some cb"
    by simp
  have h2: "(Rejected :: response) = Rejected \<or> (\<exists>p. (Rejected :: response) = Body False p)"
    by simp
  from delete_is_fail_closed [of "''t1''" "Some returning" "Body True NoData" "fst (mount [task_t1])"] h1
  have a: "\<exists>logged. trace (snd (handleDelete ''t1'' (Some returning) (Body True NoData) (fst (mount [task_t1]))))
          = DeleteRequest ''t1'' # TaskDeleted ''t1'' # logged"
    by (auto simp: mount_def)
  from delete_is_fail_closed [of "''t1''" "Some returning" Rejected "fst (mount [task_t1])"] h2
  have b: "(\<forall>x. TaskDeleted x \<notin> set (trace (snd (handleDelete ''t1'' (Some returning) Rejected (fst (mount [task_t1]))))))
   \<and> optimisticTasks (snd (handleDelete ''t1'' (Some returning) Rejected (fst (mount [task_t1])))) = [task_t1]"
    by (auto simp: mount_def)
  from h1 h2 a b show ?thesis by blast
qed

end
